theory Spec2Isabelle
  imports Main "HOL-Library.Word"
begin

unbundle bit_operations_syntax

section \<open>The schedule, the bit sets of math/big and the locations of package time\<close>

text \<open>
  A \<open>SpecSchedule\<close> holds seven \<open>*big.Int\<close> bit sets and a location. An arbitrary
  precision integer is an \<open>int\<close>; \<open>x.Bit(i)\<close> reads bit \<open>i\<close> of the two's complement
  representation (for a negative \<open>x\<close> as well) and has Go type \<open>uint\<close>, here 64 bits wide.
  Every index the code passes is non-negative (the year index is guarded by the comparison
  with \<open>minYear\<close> or \<open>maxYear\<close> in front of it), so the index is a \<open>nat\<close>.

  A \<open>*time.Location\<close> is a table of zone transitions: the offset from UTC (in seconds) in
  force before the first transition, and the transitions in ascending order, each with the
  instant (in Unix seconds) from which its offset holds. \<open>is_Local\<close> marks the distinguished
  pointer \<open>time.Local\<close>. \<open>Zone k\<close> is a location without transitions (\<open>time.UTC\<close>,
  \<open>time.FixedZone\<close>), \<open>Local k\<close> the machine's zone when it has none.
\<close>

record location =
  is_Local :: bool
  offset :: int
  tx :: "(int \<times> int) list"

definition Zone :: "int \<Rightarrow> location" where
  "Zone k = \<lparr>is_Local = False, offset = k, tx = []\<rparr>"

definition Local :: "int \<Rightarrow> location" where
  "Local k = \<lparr>is_Local = True, offset = k, tx = []\<rparr>"

record SpecSchedule =
  Second :: int
  Minute :: int
  Hour :: int
  Dom :: int
  Month :: int
  Dow :: int
  Year :: int
  Location :: location

definition Bit :: "int \<Rightarrow> nat \<Rightarrow> 64 word" where
  "Bit x i = (if bit x i then 1 else 0)"

definition maxBits :: nat where "maxBits = 160"
definition minYear :: int where "minYear = 1970"
definition maxYear :: int where "maxYear = 2099"

section \<open>Instants and the proleptic Gregorian calendar of package time\<close>

text \<open>
  A \<open>time.Time\<close> is an instant, counted here in nanoseconds since the Unix epoch, together
  with the location it is presented in. The calendar functions follow package time: days are
  counted from 1 January of year 1, the year is found by peeling off cycles of 400, 100, 4
  and 1 years, the month by the table of days before each month.
\<close>

record time =
  ns :: int
  loc :: location

definition isLeap :: "int \<Rightarrow> bool" where
  "isLeap y = ((y mod 4 = 0 \<and> y mod 100 \<noteq> 0) \<or> y mod 400 = 0)"

definition daysSinceEpoch :: "int \<Rightarrow> int" where
  "daysSinceEpoch y =
     365 * (y - 1) + (y - 1) div 4 - (y - 1) div 100 + (y - 1) div 400"

definition daysBefore :: "int \<Rightarrow> int" where
  "daysBefore m =
     (if m \<le> 1 then 0 else if m = 2 then 31 else if m = 3 then 59 else if m = 4 then 90
      else if m = 5 then 120 else if m = 6 then 151 else if m = 7 then 181
      else if m = 8 then 212 else if m = 9 then 243 else if m = 10 then 273
      else if m = 11 then 304 else if m = 12 then 334 else 365)"

definition daysBeforeMonth :: "int \<Rightarrow> int \<Rightarrow> int" where
  "daysBeforeMonth y m = daysBefore m + (if isLeap y \<and> 3 \<le> m then 1 else 0)"

text \<open>The year of a day number and the day within that year (both counted from 0).\<close>

definition yearDay :: "int \<Rightarrow> int \<times> int" where
  "yearDay d =
     (let n400 = d div 146097;
          r = d mod 146097;
          n = r div 36524;
          n100 = n - n div 4;
          r1 = r - 36524 * n100;
          n4 = r1 div 1461;
          r2 = r1 - 1461 * n4;
          k = r2 div 365;
          n1 = k - k div 4;
          yday = r2 - 365 * n1
      in (400 * n400 + 100 * n100 + 4 * n4 + n1 + 1, yday))"

definition monthDay :: "int \<Rightarrow> int \<Rightarrow> int \<times> int" where
  "monthDay y yday =
     (let l = (if isLeap y then 1 else 0) in
      if yday < 31 then (1, yday + 1)
      else if yday < 59 + l then (2, yday - 30)
      else if yday < 90 + l then (3, yday - 58 - l)
      else if yday < 120 + l then (4, yday - 89 - l)
      else if yday < 151 + l then (5, yday - 119 - l)
      else if yday < 181 + l then (6, yday - 150 - l)
      else if yday < 212 + l then (7, yday - 180 - l)
      else if yday < 243 + l then (8, yday - 211 - l)
      else if yday < 273 + l then (9, yday - 242 - l)
      else if yday < 304 + l then (10, yday - 272 - l)
      else if yday < 334 + l then (11, yday - 303 - l)
      else (12, yday - 333 - l))"

text \<open>
  \<open>l.lookup(sec)\<close>: the offset in force at the instant \<open>sec\<close> and the range
  \<open>[start, end)\<close> of instants over which it holds; \<open>alpha\<close> and \<open>omega\<close> stand for the
  beginning and the end of time. On an ascending table the scan below finds what the binary
  search of package time finds. The rule by which package time extends a table beyond its
  last transition is left out: a table stands for the zone up to its last transition and
  for as long afterwards as the last offset stays in force.
\<close>

definition alpha :: int where "alpha = - (2 ^ 63)"
definition omega :: int where "omega = 2 ^ 63 - 1"

fun lookupTx :: "int \<Rightarrow> int \<Rightarrow> (int \<times> int) list \<Rightarrow> int \<Rightarrow> int \<times> int \<times> int" where
  "lookupTx off start [] sec = (off, start, omega)"
| "lookupTx off start ((w, off') # rest) sec =
     (if sec < w then (off, start, w) else lookupTx off' w rest sec)"

definition lookup :: "location \<Rightarrow> int \<Rightarrow> int \<times> int \<times> int" where
  "lookup l sec = lookupTx (offset l) alpha (tx l) sec"

definition unixToInternal :: int where
  "unixToInternal = 719162 * 86400"

definition Unix :: "time \<Rightarrow> int" where
  "Unix t = ns t div 1000000000"

text \<open>
  Seconds since 1 January of year 1, 00:00:00, on the wall clock of the time's location:
  the accessors of a \<open>time.Time\<close> add the offset in force at its instant.
\<close>

definition localSecs :: "time \<Rightarrow> int" where
  "localSecs t = Unix t + fst (lookup (loc t) (Unix t)) + unixToInternal"

definition dayNumber :: "time \<Rightarrow> int" where
  "dayNumber t = localSecs t div 86400"

definition year_of :: "time \<Rightarrow> int" where
  "year_of t = fst (yearDay (dayNumber t))"

definition month_of :: "time \<Rightarrow> int" where
  "month_of t = (case yearDay (dayNumber t) of (y, yd) \<Rightarrow> fst (monthDay y yd))"

definition day_of :: "time \<Rightarrow> int" where
  "day_of t = (case yearDay (dayNumber t) of (y, yd) \<Rightarrow> snd (monthDay y yd))"

definition weekday_of :: "time \<Rightarrow> int" where
  "weekday_of t = (dayNumber t + 1) mod 7"

definition hour_of :: "time \<Rightarrow> int" where
  "hour_of t = localSecs t mod 86400 div 3600"

definition minute_of :: "time \<Rightarrow> int" where
  "minute_of t = localSecs t mod 3600 div 60"

definition second_of :: "time \<Rightarrow> int" where
  "second_of t = localSecs t mod 60"

definition nanosecond_of :: "time \<Rightarrow> int" where
  "nanosecond_of t = ns t mod 1000000000"

text \<open>
  \<open>time.Date\<close>: the month is normalised into the year; days, hours, minutes, seconds and
  nanoseconds out of range overflow into the next unit, which the linear sum does. The wall
  clock is then turned into an instant: the offset is looked up at the wall clock read as
  UTC, and looked up again at the resulting instant when that falls outside the range of the
  first answer. A wall clock that a transition skips or repeats so gets one of the instants
  next to the transition.
\<close>

definition wallToUnix :: "location \<Rightarrow> int \<Rightarrow> int" where
  "wallToUnix l unix =
     (case lookup l unix of (off, start, end) \<Rightarrow>
        if off \<noteq> 0 then
          (if unix - off < start \<or> unix - off \<ge> end
           then unix - fst (lookup l (unix - off))
           else unix - off)
        else unix)"

definition Date :: "int \<Rightarrow> int \<Rightarrow> int \<Rightarrow> int \<Rightarrow> int \<Rightarrow> int \<Rightarrow> int \<Rightarrow> location \<Rightarrow> time" where
  "Date y m d h mi s n l =
     (let y' = y + (m - 1) div 12;
          m' = (m - 1) mod 12 + 1;
          days = daysSinceEpoch y' + daysBeforeMonth y' m' + (d - 1);
          secs = days * 86400 + h * 3600 + mi * 60 + s + n div 1000000000
      in \<lparr>ns = wallToUnix l (secs - unixToInternal) * 1000000000 + n mod 1000000000,
          loc = l\<rparr>)"

definition Add :: "time \<Rightarrow> int \<Rightarrow> time" where
  "Add t d = t\<lparr>ns := ns t + d\<rparr>"

definition AddDate :: "time \<Rightarrow> int \<Rightarrow> int \<Rightarrow> int \<Rightarrow> time" where
  "AddDate t years months days =
     Date (year_of t + years) (month_of t + months) (day_of t + days)
          (hour_of t) (minute_of t) (second_of t) (nanosecond_of t) (loc t)"

definition In :: "time \<Rightarrow> location \<Rightarrow> time" where
  "In t l = t\<lparr>loc := l\<rparr>"

text \<open>
  \<open>t.Truncate(d)\<close> rounds the instant down to a multiple of \<open>d\<close> since the zero time
  (1 January of year 1, 00:00:00 UTC), whatever the location is.
\<close>

definition Truncate :: "time \<Rightarrow> int \<Rightarrow> time" where
  "Truncate t d = t\<lparr>ns := ns t - (ns t + unixToInternal * 1000000000) mod d\<rparr>"

definition zeroTime :: time where
  "zeroTime = \<lparr>ns = - unixToInternal * 1000000000, loc = Zone 0\<rparr>"

definition Nanosecond :: int where "Nanosecond = 1"
definition Second_d :: int where "Second_d = 1000000000"
definition Minute_d :: int where "Minute_d = 60 * 1000000000"
definition Hour_d :: int where "Hour_d = 3600 * 1000000000"

section \<open>Facts about the calendar\<close>

definition yearLen :: "int \<Rightarrow> int" where
  "yearLen y = (if isLeap y then 366 else 365)"

lemma div_add_small: "0 \<le> z \<Longrightarrow> z < k \<Longrightarrow> (k * q + z) div k = q" for z k q :: int
  by (simp add: div_pos_pos_trivial)

lemma mod_add_small: "0 \<le> z \<Longrightarrow> z < k \<Longrightarrow> (k * q + z) mod k = z" for z k q :: int
  by (simp add: mod_pos_pos_trivial)

lemma dse_decomp:
  assumes "0 \<le> a" "a \<le> 3" "0 \<le> b" "b \<le> 24" "0 \<le> c" "c \<le> 3"
  shows "daysSinceEpoch (400 * q + 100 * a + 4 * b + c + 1) = 146097 * q + 36524 * a + 1461 * b + 365 * c"
proof -
  let ?z = "400 * q + 100 * a + 4 * b + c"
  have d400: "?z div 400 = q"
    using div_add_small [of "100 * a + 4 * b + c" 400 q] assms by (simp add: algebra_simps)
  have d100: "?z div 100 = 4 * q + a"
    using div_add_small [of "4 * b + c" 100 "4 * q + a"] assms by (simp add: algebra_simps)
  have d4: "?z div 4 = 100 * q + 25 * a + b"
    using div_add_small [of "c" 4 "100 * q + 25 * a + b"] assms by (simp add: algebra_simps)
  show ?thesis
    unfolding daysSinceEpoch_def using d400 d100 d4 by simp
qed

lemma mod_zero_top:
  fixes z k x :: int
  assumes "0 < z" "z \<le> k"
  shows "((k * x + z) mod k = 0) = (z = k)"
proof (cases "z = k")
  case True
  then show ?thesis by simp
next
  case False
  then have "(k * x + z) mod k = z" using assms by (simp add: mod_pos_pos_trivial)
  then show ?thesis using assms False by simp
qed

lemma leap_decomp:
  assumes "0 \<le> a" "a \<le> 3" "0 \<le> b" "b \<le> 24" "0 \<le> c" "c \<le> 3"
  shows "isLeap (400 * q + 100 * a + 4 * b + c + 1) = (c = 3 \<and> (b \<noteq> 24 \<or> a = 3))"
proof -
  let ?y = "400 * q + 100 * a + 4 * b + c + 1"
  have e4: "?y = 4 * (100 * q + 25 * a + b) + (c + 1)" by simp
  have e100: "?y = 100 * (4 * q + a) + (4 * b + c + 1)" by simp
  have e400: "?y = 400 * q + (100 * a + 4 * b + c + 1)" by simp
  have c4: "(?y mod 4 = 0) = (c + 1 = 4)"
    unfolding e4 using assms by (intro mod_zero_top) linarith+
  have c100: "(?y mod 100 = 0) = (4 * b + c + 1 = 100)"
    unfolding e100 using assms by (intro mod_zero_top) linarith+
  have c400: "(?y mod 400 = 0) = (100 * a + 4 * b + c + 1 = 400)"
    unfolding e400 using assms by (intro mod_zero_top) linarith+
  have s100: "(4 * b + c + 1 = 100) = (b = 24 \<and> c = 3)"
  proof (cases "b = 24")
    case True then show ?thesis by auto
  next
    case False then have "b \<le> 23" using assms by linarith
    then show ?thesis using assms False by auto
  qed
  have s400: "(100 * a + 4 * b + c + 1 = 400) = (a = 3 \<and> b = 24 \<and> c = 3)"
  proof (cases "a = 3")
    case True then show ?thesis using s100 by auto
  next
    case False then have "a \<le> 2" using assms by linarith
    then show ?thesis using assms False by auto
  qed
  have s4: "(c + 1 = 4) = (c = 3)" by auto
  show ?thesis unfolding isLeap_def c4 c100 c400 s4 s100 s400 by blast
qed

lemma div_bounds: "0 < k \<Longrightarrow> k * (x div k) \<le> x \<and> x < k * (x div k) + k" for k x :: int
  using mult_div_mod_eq [of k x] pos_mod_bound [of k x] pos_mod_sign [of k x] by linarith

lemma small_cases: "0 \<le> n \<Longrightarrow> n \<le> 4 \<Longrightarrow> n = 0 \<or> n = 1 \<or> n = 2 \<or> n = 3 \<or> n = (4::int)"
  by linarith

lemma clip4: "0 \<le> n \<Longrightarrow> n \<le> 4 \<Longrightarrow> n - n div 4 = (if n = 4 then 3 else n)" for n :: int
  using small_cases [of n] by auto

lemma yearDay_decomp:
  "\<exists>q a b c yd. 0 \<le> a \<and> a \<le> 3 \<and> 0 \<le> b \<and> b \<le> 24 \<and> 0 \<le> c \<and> c \<le> 3 \<and>
     yearDay N = (400 * q + 100 * a + 4 * b + c + 1, yd) \<and>
     N = 146097 * q + 36524 * a + 1461 * b + 365 * c + yd \<and> 0 \<le> yd \<and>
     (yd < 365 \<or> (yd = 365 \<and> c = 3 \<and> (b \<noteq> 24 \<or> a = 3)))"
proof -
  define q where "q = N div 146097"
  define r where "r = N mod 146097"
  define n where "n = r div 36524"
  define a where "a = n - n div 4"
  define r1 where "r1 = r - 36524 * a"
  define b where "b = r1 div 1461"
  define r2 where "r2 = r1 - 1461 * b"
  define k where "k = r2 div 365"
  define c where "c = k - k div 4"
  define yd where "yd = r2 - 365 * c"
  have N: "N = 146097 * q + r" unfolding q_def r_def by simp
  have r: "0 \<le> r" "r < 146097" unfolding r_def by simp_all
  have n0: "36524 * n \<le> r \<and> r < 36524 * n + 36524"
    unfolding n_def by (rule div_bounds) simp
  have n: "0 \<le> n" "n \<le> 4" using n0 r by linarith+
  have a_eq: "a = (if n = 4 then 3 else n)" unfolding a_def using n by (rule clip4)
  have a: "0 \<le> a" "a \<le> 3" using a_eq n by (auto split: if_splits)
  have r1: "0 \<le> r1" "r1 \<le> 36524"
    unfolding r1_def using a_eq n0 r by (auto split: if_splits)
  have r1a: "r1 = 36524 \<longrightarrow> a = 3"
    unfolding r1_def using a_eq n0 r n by (auto split: if_splits)
  have b0: "1461 * b \<le> r1 \<and> r1 < 1461 * b + 1461"
    unfolding b_def by (rule div_bounds) simp
  have b: "0 \<le> b" "b \<le> 24" using b0 r1 by linarith+
  have r2: "0 \<le> r2" "r2 \<le> 1460" unfolding r2_def using b0 by linarith+
  have k0: "365 * k \<le> r2 \<and> r2 < 365 * k + 365"
    unfolding k_def by (rule div_bounds) simp
  have k: "0 \<le> k" "k \<le> 4" using k0 r2 by linarith+
  have c_eq: "c = (if k = 4 then 3 else k)" unfolding c_def using k by (rule clip4)
  have c: "0 \<le> c" "c \<le> 3" using c_eq k by (auto split: if_splits)
  have yd: "0 \<le> yd" "yd \<le> 365"
    unfolding yd_def using c_eq k0 r2 by (auto split: if_splits)
  have yd365: "yd = 365 \<longrightarrow> c = 3 \<and> r2 = 1460"
    unfolding yd_def using c_eq k0 r2 k by (auto split: if_splits)
  have leap: "yd = 365 \<longrightarrow> (b \<noteq> 24 \<or> a = 3)"
    using yd365 r1a r1 unfolding r2_def by linarith
  have yD: "yearDay N = (400 * q + 100 * a + 4 * b + c + 1, yd)"
    unfolding yearDay_def Let_def q_def r_def n_def a_def r1_def b_def r2_def k_def c_def yd_def
    by (rule refl)
  have sum: "N = 146097 * q + 36524 * a + 1461 * b + 365 * c + yd"
    unfolding N yd_def r2_def r1_def by simp
  have last: "yd < 365 \<or> (yd = 365 \<and> c = 3 \<and> (b \<noteq> 24 \<or> a = 3))"
    using yd yd365 leap by linarith
  show ?thesis
    using a b c yD sum yd(1) last by blast
qed

lemma yearDay_sound:
  assumes "yearDay N = (y, yd)"
  shows "N = daysSinceEpoch y + yd \<and> 0 \<le> yd \<and> yd < yearLen y"
proof -
  obtain q a b c yd' where
    bnd: "0 \<le> a" "a \<le> 3" "0 \<le> b" "b \<le> 24" "0 \<le> c" "c \<le> 3"
    and yD: "yearDay N = (400 * q + 100 * a + 4 * b + c + 1, yd')"
    and sum: "N = 146097 * q + 36524 * a + 1461 * b + 365 * c + yd'"
    and yd0: "0 \<le> yd'"
    and last: "yd' < 365 \<or> (yd' = 365 \<and> c = 3 \<and> (b \<noteq> 24 \<or> a = 3))"
    using yearDay_decomp [of N] by blast
  have y: "y = 400 * q + 100 * a + 4 * b + c + 1" and yd: "yd = yd'"
    using assms yD by simp_all
  have dse: "daysSinceEpoch y = 146097 * q + 36524 * a + 1461 * b + 365 * c"
    unfolding y using bnd by (rule dse_decomp)
  have leap: "isLeap y = (c = 3 \<and> (b \<noteq> 24 \<or> a = 3))"
    unfolding y using bnd by (rule leap_decomp)
  have "yd' < yearLen y"
    using last leap by (auto simp add: yearLen_def)
  then show ?thesis using dse sum yd yd0 by simp
qed

lemma div_pred:
  fixes k y :: int
  assumes "0 < k"
  shows "y div k = (y - 1) div k + (if y mod k = 0 then 1 else 0)"
proof (cases "y mod k = 0")
  case True
  then have y: "y = k * (y div k)" by (simp add: mod_eq_0_iff_dvd)
  have "(k * (y div k - 1) + (k - 1)) div k = y div k - 1"
    using assms by (intro div_add_small) simp_all
  moreover have "k * (y div k - 1) + (k - 1) = y - 1"
    using y by (simp add: algebra_simps)
  ultimately show ?thesis using True by simp
next
  case False
  have m: "0 < y mod k" "y mod k < k"
    using False assms pos_mod_sign [of k y] pos_mod_bound [of k y] by linarith+
  have "(k * (y div k) + (y mod k - 1)) div k = y div k"
    using m by (intro div_add_small) simp_all
  moreover have "k * (y div k) + (y mod k - 1) = y - 1"
    by (simp add: algebra_simps)
  ultimately show ?thesis using False by simp
qed

lemma mod_400_100: "y mod 400 = 0 \<Longrightarrow> y mod 100 = 0" for y :: int
  using mod_mod_cancel [of 100 400 y] by simp

lemma mod_100_4: "y mod 100 = 0 \<Longrightarrow> y mod 4 = 0" for y :: int
  using mod_mod_cancel [of 4 100 y] by simp

lemma dse_Suc_lin:
  fixes a a' b b' c c' i j k y E F L :: int
  assumes "a = a' + i" "b = b' + j" "c = c' + k" "E = 365 * y + a - b + c"
    "F = 365 * (y - 1) + a' - b' + c'" "L = 365 + i - j + k"
  shows "E = F + L"
  using assms by simp

lemma dse_Suc: "daysSinceEpoch (y + 1) = daysSinceEpoch y + yearLen y"
proof -
  define i4 :: int where "i4 = (if y mod 4 = 0 then 1 else 0)"
  define i100 :: int where "i100 = (if y mod 100 = 0 then 1 else 0)"
  define i400 :: int where "i400 = (if y mod 400 = 0 then 1 else 0)"
  have d4: "y div 4 = (y - 1) div 4 + i4"
    unfolding i4_def by (rule div_pred) simp
  have d100: "y div 100 = (y - 1) div 100 + i100"
    unfolding i100_def by (rule div_pred) simp
  have d400: "y div 400 = (y - 1) div 400 + i400"
    unfolding i400_def by (rule div_pred) simp
  have e: "daysSinceEpoch (y + 1) = 365 * y + y div 4 - y div 100 + y div 400"
    by (simp add: daysSinceEpoch_def)
  have f: "daysSinceEpoch y = 365 * (y - 1) + (y - 1) div 4 - (y - 1) div 100 + (y - 1) div 400"
    by (simp add: daysSinceEpoch_def)
  have l: "yearLen y = 365 + i4 - i100 + i400"
    unfolding yearLen_def isLeap_def i4_def i100_def i400_def
    using mod_400_100 [of y] mod_100_4 [of y] by auto
  show ?thesis by (rule dse_Suc_lin [OF d4 d100 d400 e f l])
qed

lemma yearLen_pos: "365 \<le> yearLen y" "yearLen y \<le> 366"
  by (simp_all add: yearLen_def)

lemma dse_mono: "y \<le> y' \<Longrightarrow> daysSinceEpoch y \<le> daysSinceEpoch y'"
proof (induction y' rule: int_ge_induct)
  case base
  show ?case by simp
next
  case (step i)
  then show ?case using dse_Suc [of i] yearLen_pos [of i] by linarith
qed

lemma dse_strict: "y < y' \<Longrightarrow> daysSinceEpoch (y + 1) \<le> daysSinceEpoch y'"
  by (rule dse_mono) simp

lemma yearDay_unique:
  assumes "daysSinceEpoch y \<le> N" "N < daysSinceEpoch (y + 1)"
  shows "yearDay N = (y, N - daysSinceEpoch y)"
proof -
  obtain y' yd where yD: "yearDay N = (y', yd)" by (cases "yearDay N")
  from yearDay_sound [OF yD]
  have s: "N = daysSinceEpoch y' + yd" "0 \<le> yd" "yd < yearLen y'" by simp_all
  have up: "N < daysSinceEpoch (y' + 1)" using s dse_Suc [of y'] by linarith
  have "\<not> y' < y" using dse_strict [of y' y] up assms by linarith
  moreover have "\<not> y < y'" using dse_strict [of y y'] s assms by linarith
  ultimately have "y' = y" by linarith
  then show ?thesis using yD s by simp
qed

definition daysIn :: "int \<Rightarrow> int \<Rightarrow> int" where
  "daysIn y m = daysBeforeMonth y (m + 1) - daysBeforeMonth y m"

lemma month_cases:
  "1 \<le> m \<Longrightarrow> m \<le> 12 \<Longrightarrow>
   m = 1 \<or> m = 2 \<or> m = 3 \<or> m = 4 \<or> m = 5 \<or> m = 6 \<or> m = 7 \<or> m = 8 \<or> m = 9 \<or> m = 10
   \<or> m = 11 \<or> m = (12::int)"
  by arith

lemma monthDay_sound:
  assumes "monthDay y yd = (m, d)" "0 \<le> yd" "yd < yearLen y"
  shows "1 \<le> m \<and> m \<le> 12 \<and> 1 \<le> d \<and> d \<le> daysIn y m \<and> yd = daysBeforeMonth y m + d - 1"
proof (cases "isLeap y")
  case True
  then show ?thesis using assms
    by (simp add: monthDay_def yearLen_def daysIn_def daysBeforeMonth_def daysBefore_def
        split: if_splits)
next
  case False
  then show ?thesis using assms
    by (simp add: monthDay_def yearLen_def daysIn_def daysBeforeMonth_def daysBefore_def
        split: if_splits)
qed

lemma monthDay_unique:
  assumes "1 \<le> m" "m \<le> 12" "1 \<le> d" "d \<le> daysIn y m"
  shows "monthDay y (daysBeforeMonth y m + d - 1) = (m, d)"
proof (cases "isLeap y")
  case True
  show ?thesis using month_cases [OF assms(1,2)] assms(3,4) True
    by (elim disjE)
      (simp_all add: monthDay_def daysIn_def daysBeforeMonth_def daysBefore_def)
next
  case False
  show ?thesis using month_cases [OF assms(1,2)] assms(3,4) False
    by (elim disjE)
      (simp_all add: monthDay_def daysIn_def daysBeforeMonth_def daysBefore_def)
qed

lemma daysIn_bounds:
  assumes "1 \<le> m" "m \<le> 12"
  shows "28 \<le> daysIn y m \<and> daysIn y m \<le> 31"
  using month_cases [OF assms]
  by (elim disjE) (simp_all add: daysIn_def daysBeforeMonth_def daysBefore_def)

lemma dbm_first: "daysBeforeMonth y 1 = 0"
  by (simp add: daysBeforeMonth_def daysBefore_def)

lemma dbm_last: "daysBeforeMonth y 13 = yearLen y"
  by (simp add: daysBeforeMonth_def daysBefore_def yearLen_def)


section \<open>The end-of-month projector and the day matcher\<close>

text \<open>
  \<open>eomBits\<close> as written: both guards call \<open>Bit\<close> with the mask constant as the bit
  index. \<open>byte\<close> is an 8-bit word, whose shifts drop the bits that leave the byte.
  The leap year test compares remainders with 0, where Go's truncated remainder and
  \<open>mod\<close> agree.
\<close>

definition shiftDow :: "int \<Rightarrow> 8 word \<Rightarrow> 8 word" where
  "shiftDow lastDayOfWeek bDow =
     (if lastDayOfWeek = 0 then drop_bit 1 (0xFC AND bDow) OR push_bit 6 bDow
      else if lastDayOfWeek = 1 then drop_bit 2 (0xF8 AND bDow) OR push_bit 5 bDow
      else if lastDayOfWeek = 2 then drop_bit 3 (0xF0 AND bDow) OR push_bit 4 bDow
      else if lastDayOfWeek = 3 then drop_bit 4 (0xE0 AND bDow) OR push_bit 3 bDow
      else if lastDayOfWeek = 4 then drop_bit 5 (0xC0 AND bDow) OR push_bit 2 bDow
      else if lastDayOfWeek = 5 then drop_bit 6 (0x80 AND bDow) OR push_bit 1 bDow
      else bDow)"

definition eomDay :: "time \<Rightarrow> 8 word" where
  "eomDay t =
     (let year = year_of t;
          leapYear = (if (year mod 4 = 0 \<and> year mod 100 \<noteq> 0) \<or> year mod 400 = 0
                      then 1 else 0);
          month = month_of t
      in if month = 4 \<or> month = 6 \<or> month = 9 \<or> month = 11 then 30
         else if month = 2 then 28 + leapYear
         else 31)"

definition eomBits :: "SpecSchedule \<Rightarrow> time \<Rightarrow> 64 word \<times> 64 word" where
  "eomBits s t =
     (let bDow = (ucast (drop_bit (6 * 8) (Bit (Dow s) 0x00FE000000000000)) :: 8 word) in
      if Bit (Dom s) 0x00FF000000000000 = 0 \<and> bDow = 0 then (0, 0)
      else
        let eom = eomDay t;
            dowBits =
              (if bDow > 0 then
                 let lastDayOfWeek =
                       weekday_of (Date (year_of t) (month_of t) (uint eom) 0 0 0 0 (loc t))
                 in push_bit (6 * 8) (ucast (shiftDow lastDayOfWeek bDow) :: 64 word)
               else 0);
            sh = unat ((55 :: 64 word) - ucast eom)
        in (drop_bit sh (Bit (Dom s) 0x00FF000000000000), drop_bit sh dowBits))"

definition dayMatches :: "SpecSchedule \<Rightarrow> time \<Rightarrow> bool" where
  "dayMatches s t =
     (let domMatch = (Bit (Dom s) (nat (day_of t)) > 0);
          dowMatch = (Bit (Dow s) (nat (weekday_of t)) > 0);
          (eom, eowd) = eomBits s t;
          domMatch = (if eom > 0
                      then domMatch \<or> (push_bit (nat (day_of t)) 1 AND eom > 0)
                      else domMatch);
          dowMatch = (if eowd > 0
                      then dowMatch \<or> (push_bit (nat (day_of t)) 1 AND eowd > 0)
                      else dowMatch)
      in if Bit (Dom s) maxBits > 0 \<or> Bit (Dow s) maxBits > 0
         then domMatch \<and> dowMatch
         else domMatch \<or> dowMatch)"

text \<open>
  Schedules and dates used as concrete inputs below. A wildcard field has every plain bit
  of its domain set; on Dom and Dow the wildcard also carries the flag bit \<open>maxBits\<close>.
\<close>

definition lastDaySchedule :: SpecSchedule where
  "lastDaySchedule =
     \<lparr>Second = 2 ^ 60 - 1, Minute = 2 ^ 60 - 1, Hour = 2 ^ 24 - 1, Dom = 2 ^ 55,
      Month = 2 ^ 13 - 2, Dow = 2 ^ 160 + 127, Year = 2 ^ 130 - 1, Location = Zone 0\<rparr>"

definition lastFridaySchedule :: SpecSchedule where
  "lastFridaySchedule =
     \<lparr>Second = 2 ^ 60 - 1, Minute = 2 ^ 60 - 1, Hour = 2 ^ 24 - 1,
      Dom = 2 ^ 160 + (2 ^ 32 - 2), Month = 2 ^ 13 - 2, Dow = 2 ^ 54, Year = 2 ^ 130 - 1,
      Location = Zone 0\<rparr>"

section \<open>Properties of the projector and the matcher\<close>

lemma bDow_zero: "(ucast (drop_bit (6 * 8) (Bit x i)) :: 8 word) = 0"
  by (simp add: Bit_def)

lemma eomDay_cases: "eomDay t = 28 \<or> eomDay t = 29 \<or> eomDay t = 30 \<or> eomDay t = 31"
  by (simp add: eomDay_def Let_def)

lemma eomBits_zero: "eomBits s t = (0, 0)"
  using eomDay_cases [of t]
  by (auto simp add: eomBits_def bDow_zero Let_def Bit_def)

lemma Bit_pos: "(Bit x i > 0) = bit x i"
  by (simp add: Bit_def)

lemma mask_test: "(push_bit n 1 AND w > 0) = bit w n" for w :: "64 word"
proof -
  have "(push_bit n 1 AND w \<noteq> 0) = bit w n"
    by (metis and.commute and_exp_eq_0_iff_not_bit push_bit_of_1)
  then show ?thesis by (simp add: word_greater_zero_iff)
qed

lemma mask_test_exp: "(2 ^ n AND w > 0) = bit w n" for w :: "64 word"
  using mask_test [of n w] by (simp add: push_bit_of_1)

lemma pos_bit: "bit w n \<Longrightarrow> w > 0" for w :: "64 word"
  by (auto simp add: word_greater_zero_iff)

lemmas calendar_defs =
  Date_def year_of_def month_of_def day_of_def weekday_of_def hour_of_def minute_of_def
  second_of_def nanosecond_of_def dayNumber_def localSecs_def unixToInternal_def
  daysSinceEpoch_def daysBeforeMonth_def daysBefore_def isLeap_def yearDay_def monthDay_def
  wallToUnix_def lookup_def Unix_def Zone_def

text \<open>
  C4. The day matcher: \<open>domMatch\<close> is the plain Dom bit at the day of the month or
  membership of that day in the first set \<open>eomBits\<close> returns, \<open>dowMatch\<close> is the plain
  Dow bit at the weekday or membership of the day in the second set; with the flag bit
  \<open>maxBits\<close> set on Dom or on Dow the verdict is their conjunction, otherwise their
  disjunction.
\<close>

theorem dayMatches_and_or:
  "dayMatches s t =
     (let (eom, eowd) = eomBits s t;
          domMatch = (bit (Dom s) (nat (day_of t)) \<or> bit eom (nat (day_of t)));
          dowMatch = (bit (Dow s) (nat (weekday_of t)) \<or> bit eowd (nat (day_of t)))
      in if bit (Dom s) 160 \<or> bit (Dow s) 160
         then domMatch \<and> dowMatch else domMatch \<or> dowMatch)"
  by (cases "eomBits s t")
     (auto simp add: dayMatches_def Let_def Bit_pos mask_test mask_test_exp maxBits_def
       dest: pos_bit)

text \<open>
  C9. \<open>eomBits\<close> returns \<open>(0, 0)\<close> for every schedule and every time (the sign of Dom
  and Dow plays no part: a set guard bit is shifted out by at least 24 places), so the
  verdict of \<open>dayMatches\<close> is a function of the plain Dom bit at the day of the month, the
  plain Dow bit at the weekday and the flag bit 160 alone.
\<close>

theorem eomBits_always_empty:
  "eomBits s t = (0, 0) \<and>
   dayMatches s t =
     (if bit (Dom s) 160 \<or> bit (Dow s) 160
      then bit (Dom s) (nat (day_of t)) \<and> bit (Dow s) (nat (weekday_of t))
      else bit (Dom s) (nat (day_of t)) \<or> bit (Dow s) (nat (weekday_of t)))"
  by (simp add: eomBits_zero dayMatches_def Let_def Bit_pos maxBits_def)

text \<open>
  C5. The schedule asking for the last day of the month, every other field a wildcard, on
  29 February 2024: the projection is empty (day 29 is not in it) and the day is rejected.
\<close>

theorem eomBits_last_day_not_projected:
  "eomBits lastDaySchedule (Date 2024 2 29 0 0 0 0 (Zone 0)) = (0, 0) \<and>
   \<not> dayMatches lastDaySchedule (Date 2024 2 29 0 0 0 0 (Zone 0))"
  by (simp add: dayMatches_def eomBits_def Let_def Bit_def maxBits_def lastDaySchedule_def
      calendar_defs)

text \<open>
  C6. The schedule asking for the last Friday of the month on Friday 31 May 2024, the last
  day of its month, and on Friday 26 April 2024, four days before a month end that is a
  Tuesday: the projection is empty and both days are rejected.
\<close>

theorem eomBits_last_friday_not_projected:
  "eomBits lastFridaySchedule (Date 2024 5 31 0 0 0 0 (Zone 0)) = (0, 0) \<and>
   \<not> dayMatches lastFridaySchedule (Date 2024 5 31 0 0 0 0 (Zone 0)) \<and>
   eomBits lastFridaySchedule (Date 2024 4 26 0 0 0 0 (Zone 0)) = (0, 0) \<and>
   \<not> dayMatches lastFridaySchedule (Date 2024 4 26 0 0 0 0 (Zone 0))"
  by (simp add: dayMatches_def eomBits_def Let_def Bit_def maxBits_def lastFridaySchedule_def
      calendar_defs)


section \<open>The time walker\<close>

text \<open>
  The labelled loops of \<open>Next\<close> and \<open>Latest\<close> become machines over the label reached
  (\<open>WRAP\<close> and one label per loop head) and the current time; \<open>Next\<close> also carries its
  flag \<open>added\<close>. \<open>stepYear\<close> to \<open>stepSecond\<close> are the bodies of the loops of \<open>Next\<close>: the
  snap to the start of the field on the first advance, then the advance by one unit.
  \<open>backYear\<close> to \<open>backSecond\<close> are the bodies of the loops of \<open>Latest\<close>: the start of the
  current field, less one second. \<open>next_step\<close> and \<open>latest_step\<close> run the code from one
  label to the next loop head, \<open>goto\<close> or \<open>return\<close>; \<open>next_go\<close> and \<open>latest_go\<close> iterate
  them. Nothing in the code bounds the number of iterations, so both searches are partial
  functions: \<open>None\<close> is a search that never returns.
\<close>

datatype pc = WRAP | YEAR | MONTH | DAY | HOUR | MINUTE | SECOND

definition stepYear :: "bool \<Rightarrow> location \<Rightarrow> time \<Rightarrow> time" where
  "stepYear added l t =
     AddDate (if \<not> added then Date (year_of t) 1 1 0 0 0 0 l else t) 1 0 0"

definition stepMonth :: "bool \<Rightarrow> location \<Rightarrow> time \<Rightarrow> time" where
  "stepMonth added l t =
     AddDate (if \<not> added then Date (year_of t) (month_of t) 1 0 0 0 0 l else t) 0 1 0"

definition fixMidnight :: "time \<Rightarrow> time" where
  "fixMidnight t =
     (if hour_of t \<noteq> 0 then
        (if hour_of t > 12 then Add t ((24 - hour_of t) * Hour_d)
         else Add t (- hour_of t * Hour_d))
      else t)"

definition stepDay :: "bool \<Rightarrow> location \<Rightarrow> time \<Rightarrow> time" where
  "stepDay added l t =
     fixMidnight
       (AddDate (if \<not> added then Date (year_of t) (month_of t) (day_of t) 0 0 0 0 l else t)
          0 0 1)"

definition stepHour :: "bool \<Rightarrow> location \<Rightarrow> time \<Rightarrow> time" where
  "stepHour added l t =
     Add (if \<not> added then Date (year_of t) (month_of t) (day_of t) (hour_of t) 0 0 0 l else t)
       (1 * Hour_d)"

definition stepMinute :: "bool \<Rightarrow> time \<Rightarrow> time" where
  "stepMinute added t = Add (if \<not> added then Truncate t Minute_d else t) (1 * Minute_d)"

definition stepSecond :: "bool \<Rightarrow> time \<Rightarrow> time" where
  "stepSecond added t = Add (if \<not> added then Truncate t Second_d else t) (1 * Second_d)"

datatype outcome = Return time | Goto pc bool time

definition next_step ::
  "SpecSchedule \<Rightarrow> location \<Rightarrow> location \<Rightarrow> int \<Rightarrow> pc \<Rightarrow> bool \<Rightarrow> time \<Rightarrow> outcome" where
  "next_step s orig l yl p added t =
     (case p of
        WRAP \<Rightarrow>
          (if year_of t > yl \<or> year_of t > maxYear then Return zeroTime
           else Goto YEAR added t)
      | YEAR \<Rightarrow>
          (if year_of t < minYear \<or> Bit (Year s) (nat (year_of t - minYear)) = 0 then
             (if year_of (stepYear added l t) > yl \<or> year_of (stepYear added l t) > maxYear
              then Return zeroTime
              else Goto YEAR True (stepYear added l t))
           else Goto MONTH added t)
      | MONTH \<Rightarrow>
          (if Bit (Month s) (nat (month_of t)) = 0 then
             (if month_of (stepMonth added l t) = 1
              then Goto WRAP True (stepMonth added l t)
              else Goto MONTH True (stepMonth added l t))
           else Goto DAY added t)
      | DAY \<Rightarrow>
          (if \<not> dayMatches s t then
             (if day_of (stepDay added l t) = 1
              then Goto WRAP True (stepDay added l t)
              else Goto DAY True (stepDay added l t))
           else Goto HOUR added t)
      | HOUR \<Rightarrow>
          (if Bit (Hour s) (nat (hour_of t)) = 0 then
             (if hour_of (stepHour added l t) = 0
              then Goto WRAP True (stepHour added l t)
              else Goto HOUR True (stepHour added l t))
           else Goto MINUTE added t)
      | MINUTE \<Rightarrow>
          (if Bit (Minute s) (nat (minute_of t)) = 0 then
             (if minute_of (stepMinute added t) = 0
              then Goto WRAP True (stepMinute added t)
              else Goto MINUTE True (stepMinute added t))
           else Goto SECOND added t)
      | SECOND \<Rightarrow>
          (if Bit (Second s) (nat (second_of t)) = 0 then
             (if second_of (stepSecond added t) = 0
              then Goto WRAP True (stepSecond added t)
              else Goto SECOND True (stepSecond added t))
           else Return (In t orig)))"

partial_function (option) next_go ::
  "SpecSchedule \<Rightarrow> location \<Rightarrow> location \<Rightarrow> int \<Rightarrow> pc \<Rightarrow> bool \<Rightarrow> time \<Rightarrow> time option" where
  "next_go s orig l yl p added t =
     (case next_step s orig l yl p added t of
        Return r \<Rightarrow> Some r
      | Goto p' added' t' \<Rightarrow> next_go s orig l yl p' added' t')"

definition Next :: "SpecSchedule \<Rightarrow> time \<Rightarrow> time option" where
  "Next s t =
     (let origLocation = loc t;
          l = (if is_Local (Location s) then loc t else Location s);
          t1 = (if \<not> is_Local (Location s) then In t (Location s) else t);
          t2 = Add t1 (1 * Second_d - nanosecond_of t1 * Nanosecond);
          yearLimit = year_of t2 + 5
      in next_go s origLocation l yearLimit WRAP False t2)"

definition backYear :: "location \<Rightarrow> time \<Rightarrow> time" where
  "backYear l t = Add (Date (year_of t) 1 1 0 0 0 0 l) (- Second_d)"

definition backMonth :: "location \<Rightarrow> time \<Rightarrow> time" where
  "backMonth l t = Add (Date (year_of t) (month_of t) 1 0 0 0 0 l) (- Second_d)"

definition backDay :: "location \<Rightarrow> time \<Rightarrow> time" where
  "backDay l t = Add (Date (year_of t) (month_of t) (day_of t) 0 0 0 0 l) (- Second_d)"

definition backHour :: "location \<Rightarrow> time \<Rightarrow> time" where
  "backHour l t =
     Add (Date (year_of t) (month_of t) (day_of t) (hour_of t) 0 0 0 l) (- Second_d)"

definition backMinute :: "time \<Rightarrow> time" where
  "backMinute t = Add (Truncate t Minute_d) (- Second_d)"

definition backSecond :: "time \<Rightarrow> time" where
  "backSecond t = Add (Truncate t Second_d) (- Second_d)"

datatype outcome_back = ReturnBack time | GotoBack pc time

definition latest_step ::
  "SpecSchedule \<Rightarrow> location \<Rightarrow> location \<Rightarrow> int \<Rightarrow> pc \<Rightarrow> time \<Rightarrow> outcome_back" where
  "latest_step s orig l yl p t =
     (case p of
        WRAP \<Rightarrow>
          (if year_of t < yl \<or> year_of t < minYear then ReturnBack zeroTime
           else GotoBack YEAR t)
      | YEAR \<Rightarrow>
          (if year_of t > maxYear \<or> Bit (Year s) (nat (year_of t - minYear)) = 0 then
             (if year_of (backYear l t) < yl \<or> year_of (backYear l t) < minYear
              then ReturnBack zeroTime
              else GotoBack YEAR (backYear l t))
           else GotoBack MONTH t)
      | MONTH \<Rightarrow>
          (if Bit (Month s) (nat (month_of t)) = 0 then
             (if month_of (backMonth l t) = 12
              then GotoBack WRAP (backMonth l t)
              else GotoBack MONTH (backMonth l t))
           else GotoBack DAY t)
      | DAY \<Rightarrow>
          (if \<not> dayMatches s t then
             (if day_of t = 1
              then GotoBack WRAP (backDay l t)
              else GotoBack DAY (backDay l t))
           else GotoBack HOUR t)
      | HOUR \<Rightarrow>
          (if Bit (Hour s) (nat (hour_of t)) = 0 then
             (if hour_of t = 0
              then GotoBack WRAP (backHour l t)
              else GotoBack HOUR (backHour l t))
           else GotoBack MINUTE t)
      | MINUTE \<Rightarrow>
          (if Bit (Minute s) (nat (minute_of t)) = 0 then
             (if minute_of t = 0
              then GotoBack WRAP (backMinute t)
              else GotoBack MINUTE (backMinute t))
           else GotoBack SECOND t)
      | SECOND \<Rightarrow>
          (if Bit (Second s) (nat (second_of t)) = 0 then
             (if second_of t = 0
              then GotoBack WRAP (backSecond t)
              else GotoBack SECOND (backSecond t))
           else ReturnBack (In t orig)))"

partial_function (option) latest_go ::
  "SpecSchedule \<Rightarrow> location \<Rightarrow> location \<Rightarrow> int \<Rightarrow> pc \<Rightarrow> time \<Rightarrow> time option" where
  "latest_go s orig l yl p t =
     (case latest_step s orig l yl p t of
        ReturnBack r \<Rightarrow> Some r
      | GotoBack p' t' \<Rightarrow> latest_go s orig l yl p' t')"

definition Latest :: "SpecSchedule \<Rightarrow> time \<Rightarrow> time option" where
  "Latest s t =
     (let origLocation = loc t;
          l = (if is_Local (Location s) then loc t else Location s);
          t1 = (if \<not> is_Local (Location s) then In t (Location s) else t);
          t2 = Truncate t1 Second_d;
          yearLimit = year_of t2 - 5
      in latest_go s origLocation l yearLimit WRAP t2)"


section \<open>Running the searches\<close>

text \<open>
  The arguments \<open>Next\<close> and \<open>Latest\<close> start their loops with: the location the search runs
  in, and the time rounded to a whole second in that location.
\<close>

definition searchLoc :: "SpecSchedule \<Rightarrow> time \<Rightarrow> location" where
  "searchLoc s t = (if is_Local (Location s) then loc t else Location s)"

definition roundUp :: "SpecSchedule \<Rightarrow> time \<Rightarrow> time" where
  "roundUp s t =
     (let t1 = (if \<not> is_Local (Location s) then In t (Location s) else t)
      in Add t1 (1 * Second_d - nanosecond_of t1 * Nanosecond))"

definition roundDown :: "SpecSchedule \<Rightarrow> time \<Rightarrow> time" where
  "roundDown s t =
     Truncate (if \<not> is_Local (Location s) then In t (Location s) else t) Second_d"

lemma Next_alt:
  "Next s t =
     next_go s (loc t) (searchLoc s t) (year_of (roundUp s t) + 5) WRAP False (roundUp s t)"
  by (simp add: Next_def roundUp_def searchLoc_def Let_def)

lemma Latest_alt:
  "Latest s t =
     latest_go s (loc t) (searchLoc s t) (year_of (roundDown s t) - 5) WRAP (roundDown s t)"
  by (simp add: Latest_def roundDown_def searchLoc_def Let_def)

lemma next_go_Goto:
  "next_step s orig l yl p added t = Goto p' added' t' \<Longrightarrow>
     next_go s orig l yl p added t = next_go s orig l yl p' added' t'"
  by (subst next_go.simps) simp

lemma next_go_Return:
  "next_step s orig l yl p added t = Return r \<Longrightarrow> next_go s orig l yl p added t = Some r"
  by (subst next_go.simps) simp

lemma latest_go_Goto:
  "latest_step s orig l yl p t = GotoBack p' t' \<Longrightarrow>
     latest_go s orig l yl p t = latest_go s orig l yl p' t'"
  by (subst latest_go.simps) simp

lemma latest_go_Return:
  "latest_step s orig l yl p t = ReturnBack r \<Longrightarrow> latest_go s orig l yl p t = Some r"
  by (subst latest_go.simps) simp

text \<open>
  A state whose step leads back to itself is never left: the search started there does not
  return.
\<close>

lemma next_go_stuck:
  assumes stuck: "next_step s orig l yl p added t = Goto p added t"
  shows "next_go s orig l yl p added t = None"
proof (rule ccontr)
  assume "next_go s orig l yl p added t \<noteq> None"
  then obtain r where r: "next_go s orig l yl p added t = Some r" by auto
  have "(s, orig, l, yl, p, added, t) \<noteq> (s, orig, l, yl, p, added, t)"
  proof (rule next_go.raw_induct
      [where P = "\<lambda>s' orig' l' yl' p' added' t' r'.
          (s', orig', l', yl', p', added', t') \<noteq> (s, orig, l, yl, p, added, t)",
        OF _ r], goal_cases)
    case (1 f s' orig' l' yl' p' added' t' r')
    show ?case
    proof
      assume "(s', orig', l', yl', p', added', t') = (s, orig, l, yl, p, added, t)"
      then have e: "s' = s" "orig' = orig" "l' = l" "yl' = yl" "p' = p" "added' = added"
        "t' = t" by simp_all
      from 1(2) have "f s orig l yl p added t = Some r'" unfolding e stuck by simp
      from 1(1) [OF this] show False by simp
    qed
  qed
  then show False by simp
qed

lemma latest_go_stuck:
  assumes stuck: "latest_step s orig l yl p t = GotoBack p t"
  shows "latest_go s orig l yl p t = None"
proof (rule ccontr)
  assume "latest_go s orig l yl p t \<noteq> None"
  then obtain r where r: "latest_go s orig l yl p t = Some r" by auto
  have "(s, orig, l, yl, p, t) \<noteq> (s, orig, l, yl, p, t)"
  proof (rule latest_go.raw_induct
      [where P = "\<lambda>s' orig' l' yl' p' t' r'.
          (s', orig', l', yl', p', t') \<noteq> (s, orig, l, yl, p, t)",
        OF _ r], goal_cases)
    case (1 f s' orig' l' yl' p' t' r')
    show ?case
    proof
      assume "(s', orig', l', yl', p', t') = (s, orig, l, yl, p, t)"
      then have e: "s' = s" "orig' = orig" "l' = l" "yl' = yl" "p' = p" "t' = t"
        by simp_all
      from 1(2) have "f s orig l yl p t = Some r'" unfolding e stuck by simp
      from 1(1) [OF this] show False by simp
    qed
  qed
  then show False by simp
qed

text \<open>
  Equations for evaluating the searches on concrete inputs: the unfolding of the two loops,
  and the day matcher without the projection, which is always empty.
\<close>

declare next_go.simps [code]
declare latest_go.simps [code]

lemma dayMatches_plain [code]:
  "dayMatches s t =
     (if Bit (Dom s) maxBits > 0 \<or> Bit (Dow s) maxBits > 0
      then Bit (Dom s) (nat (day_of t)) > 0 \<and> Bit (Dow s) (nat (weekday_of t)) > 0
      else Bit (Dom s) (nat (day_of t)) > 0 \<or> Bit (Dow s) (nat (weekday_of t)) > 0)"
  by (simp add: dayMatches_def eomBits_zero)

section \<open>Results lie on whole seconds\<close>

lemma nano_Date: "nanosecond_of (Date y m d h mi sec n l) = n mod 1000000000"
  unfolding nanosecond_of_def Date_def Let_def
  by (simp only: time.select_convs mod_mult_self3 mod_mod_trivial)

lemma nano_AddDate [simp]: "nanosecond_of (AddDate t a b c) = nanosecond_of t"
  by (simp add: AddDate_def nano_Date) (simp add: nanosecond_of_def mod_mod_trivial)

lemma nano_Add_dvd: "1000000000 dvd d \<Longrightarrow> nanosecond_of (Add t d) = nanosecond_of t"
  by (auto simp add: nanosecond_of_def Add_def elim!: dvdE)

lemma nano_Add_units [simp]:
  "nanosecond_of (Add t Second_d) = nanosecond_of t"
  "nanosecond_of (Add t (- Second_d)) = nanosecond_of t"
  "nanosecond_of (Add t Minute_d) = nanosecond_of t"
  "nanosecond_of (Add t Hour_d) = nanosecond_of t"
  by (simp_all add: nano_Add_dvd Second_d_def Minute_d_def Hour_d_def)

lemma nano_Truncate [simp]:
  "nanosecond_of (Truncate t Second_d) = 0" "nanosecond_of (Truncate t Minute_d) = 0"
proof -
  have c: "unixToInternal * 1000000000 = 60000000000 * (719162 * 1440)"
    by (simp add: unixToInternal_def)
  have "(ns t - ns t mod 60000000000) mod 1000000000 = 0"
    by (simp add: minus_mod_eq_mult_div)
  moreover have "(ns t + 60000000000 * (719162 * 1440)) mod 60000000000 = ns t mod 60000000000"
    by (rule mod_mult_self2)
  ultimately show "nanosecond_of (Truncate t Minute_d) = 0"
    unfolding nanosecond_of_def Truncate_def Minute_d_def c by simp
  show "nanosecond_of (Truncate t Second_d) = 0"
    by (simp add: nanosecond_of_def Truncate_def Second_d_def minus_mod_eq_mult_div)
qed

lemma nano_In [simp]: "nanosecond_of (In t l) = nanosecond_of t"
  by (simp add: nanosecond_of_def In_def)

lemma nano_zeroTime [simp]: "nanosecond_of zeroTime = 0"
  by (simp add: nanosecond_of_def zeroTime_def)

lemma nano_fixMidnight [simp]: "nanosecond_of (fixMidnight t) = nanosecond_of t"
  by (simp add: fixMidnight_def nano_Add_dvd Hour_d_def)

lemma nano_steps:
  "nanosecond_of t = 0 \<Longrightarrow> nanosecond_of (stepYear added l t) = 0"
  "nanosecond_of t = 0 \<Longrightarrow> nanosecond_of (stepMonth added l t) = 0"
  "nanosecond_of t = 0 \<Longrightarrow> nanosecond_of (stepDay added l t) = 0"
  "nanosecond_of t = 0 \<Longrightarrow> nanosecond_of (stepHour added l t) = 0"
  "nanosecond_of t = 0 \<Longrightarrow> nanosecond_of (stepMinute added t) = 0"
  "nanosecond_of t = 0 \<Longrightarrow> nanosecond_of (stepSecond added t) = 0"
  by (simp_all add: stepYear_def stepMonth_def stepDay_def stepHour_def stepMinute_def
      stepSecond_def nano_Date)

lemma nano_backs [simp]:
  "nanosecond_of (backYear l t) = 0" "nanosecond_of (backMonth l t) = 0"
  "nanosecond_of (backDay l t) = 0" "nanosecond_of (backHour l t) = 0"
  "nanosecond_of (backMinute t) = 0" "nanosecond_of (backSecond t) = 0"
  by (simp_all add: backYear_def backMonth_def backDay_def backHour_def backMinute_def
      backSecond_def nano_Date)

lemma next_step_Return_whole:
  "next_step s orig l yl p added t = Return r \<Longrightarrow> nanosecond_of t = 0 \<Longrightarrow>
     nanosecond_of r = 0"
  by (cases p) (auto simp add: next_step_def split: if_splits)

lemma next_step_Goto_whole:
  "next_step s orig l yl p added t = Goto p' added' t' \<Longrightarrow> nanosecond_of t = 0 \<Longrightarrow>
     nanosecond_of t' = 0"
  by (cases p) (auto simp add: next_step_def nano_steps split: if_splits)

lemma next_go_whole:
  assumes "next_go s orig l yl p added t = Some r"
  shows "nanosecond_of t = 0 \<longrightarrow> nanosecond_of r = 0"
proof (rule next_go.raw_induct
    [where P = "\<lambda>s orig l yl p added t r. nanosecond_of t = 0 \<longrightarrow> nanosecond_of r = 0",
      OF _ assms], goal_cases)
  case (1 f s orig l yl p added t r)
  show ?case
  proof
    assume t: "nanosecond_of t = 0"
    show "nanosecond_of r = 0"
    proof (cases "next_step s orig l yl p added t")
      case (Return r')
      with 1(2) have "r' = r" by simp
      with Return t show ?thesis by (auto dest: next_step_Return_whole)
    next
      case (Goto p' added' t')
      with 1(2) have "f s orig l yl p' added' t' = Some r" by simp
      moreover from Goto t have "nanosecond_of t' = 0" by (rule next_step_Goto_whole)
      ultimately show ?thesis using 1(1) by blast
    qed
  qed
qed

lemma latest_step_Return_whole:
  "latest_step s orig l yl p t = ReturnBack r \<Longrightarrow> nanosecond_of t = 0 \<Longrightarrow>
     nanosecond_of r = 0"
  by (cases p) (auto simp add: latest_step_def split: if_splits)

lemma latest_step_Goto_whole:
  "latest_step s orig l yl p t = GotoBack p' t' \<Longrightarrow> nanosecond_of t = 0 \<Longrightarrow>
     nanosecond_of t' = 0"
  by (cases p) (auto simp add: latest_step_def split: if_splits)

lemma latest_go_whole:
  assumes "latest_go s orig l yl p t = Some r"
  shows "nanosecond_of t = 0 \<longrightarrow> nanosecond_of r = 0"
proof (rule latest_go.raw_induct
    [where P = "\<lambda>s orig l yl p t r. nanosecond_of t = 0 \<longrightarrow> nanosecond_of r = 0",
      OF _ assms], goal_cases)
  case (1 f s orig l yl p t r)
  show ?case
  proof
    assume t: "nanosecond_of t = 0"
    show "nanosecond_of r = 0"
    proof (cases "latest_step s orig l yl p t")
      case (ReturnBack r')
      with 1(2) have "r' = r" by simp
      with ReturnBack t show ?thesis by (auto dest: latest_step_Return_whole)
    next
      case (GotoBack p' t')
      with 1(2) have "f s orig l yl p' t' = Some r" by simp
      moreover from GotoBack t have "nanosecond_of t' = 0" by (rule latest_step_Goto_whole)
      ultimately show ?thesis using 1(1) by blast
    qed
  qed
qed

lemma lin_start: "a - m = c * q \<Longrightarrow> a + (c - m) = c * (q + 1)" for a :: int
  by (simp add: algebra_simps)

lemma nano_start:
  "nanosecond_of (Add t (1 * Second_d - nanosecond_of t * Nanosecond)) = 0"
proof -
  have "ns t - ns t mod 1000000000 = 1000000000 * (ns t div 1000000000)"
    by (rule minus_mod_eq_mult_div)
  then have e: "ns t + (1000000000 - ns t mod 1000000000) =
      1000000000 * (ns t div 1000000000 + 1)"
    by (rule lin_start)
  have "(ns t + (1000000000 - ns t mod 1000000000)) mod 1000000000 = 0"
    unfolding e by simp
  then show ?thesis
    by (simp add: nanosecond_of_def Add_def Second_d_def Nanosecond_def)
qed

lemma nano_roundUp: "nanosecond_of (roundUp s t) = 0"
  unfolding roundUp_def Let_def by (rule nano_start)

lemma nano_roundDown: "nanosecond_of (roundDown s t) = 0"
  unfolding roundDown_def by (rule nano_Truncate(1))

text \<open>The schedule with every bit of every field set, in the location \<open>l\<close>.\<close>

definition everySchedule :: "location \<Rightarrow> SpecSchedule" where
  "everySchedule l =
     \<lparr>Second = - 1, Minute = - 1, Hour = - 1, Dom = - 1, Month = - 1, Dow = - 1, Year = - 1,
      Location = l\<rparr>"

text \<open>
  C10. Whatever \<open>Next\<close> or \<open>Latest\<close> returns, the zero time included, has a nanosecond part
  of zero, in every location: both searches start from a whole second, \<open>time.Date\<close> and
  \<open>AddDate\<close> keep the nanosecond part and every duration added is a whole number of
  seconds.
\<close>

theorem results_on_whole_second:
  "(\<forall>r. Next s t = Some r \<longrightarrow> nanosecond_of r = 0) \<and>
   (\<forall>r. Latest s t = Some r \<longrightarrow> nanosecond_of r = 0)"
proof (intro conjI allI impI)
  fix r
  assume "Next s t = Some r"
  then show "nanosecond_of r = 0"
    unfolding Next_alt using next_go_whole nano_roundUp by blast
next
  fix r
  assume "Latest s t = Some r"
  then show "nanosecond_of r = 0"
    unfolding Latest_alt using latest_go_whole nano_roundDown by blast
qed

lemma everySchedule_half_past:
  "Next (everySchedule (Zone 0)) \<lparr>ns = 1704106710500000000, loc = Zone 0\<rparr> =
     Some \<lparr>ns = 1704106711000000000, loc = Zone 0\<rparr>"
  "Latest (everySchedule (Zone 0)) \<lparr>ns = 1704106710500000000, loc = Zone 0\<rparr> =
     Some \<lparr>ns = 1704106710000000000, loc = Zone 0\<rparr>"
  by code_simp+

theorem results_on_whole_second_witness:
  "Next (everySchedule (Zone 0)) \<lparr>ns = 1704106710500000000, loc = Zone 0\<rparr> =
     Some \<lparr>ns = 1704106711000000000, loc = Zone 0\<rparr> \<and>
   nanosecond_of \<lparr>ns = 1704106711000000000, loc = Zone 0\<rparr> = 0 \<and>
   Latest (everySchedule (Zone 0)) \<lparr>ns = 1704106710500000000, loc = Zone 0\<rparr> =
     Some \<lparr>ns = 1704106710000000000, loc = Zone 0\<rparr> \<and>
   nanosecond_of \<lparr>ns = 1704106710000000000, loc = Zone 0\<rparr> = 0"
  using results_on_whole_second [of "everySchedule (Zone 0)"
      "\<lparr>ns = 1704106710500000000, loc = Zone 0\<rparr>"] everySchedule_half_past
  by simp

section \<open>The searches across zone transitions\<close>

text \<open>
  Locations with transitions, each a window of the table of a zone of the tz database:
  Pacific/Apia from April 2011 to September 2012 (the zone moved across the date line at
  the end of 29 December 2011 and had no 30 December), Europe/Berlin and Asia/Beirut in
  2024 (daylight saving from the end of March to the end of October; Beirut switches at
  local midnight) and Australia/Lord_Howe from April 2024 (daylight saving shifts the clock
  by half an hour, at 2 o'clock).
\<close>

definition apia :: location where
  "apia = \<lparr>is_Local = False, offset = - 39600,
     tx = [(1316872800, - 36000), (1325239200, 50400), (1333202400, 46800)]\<rparr>"

definition berlin :: location where
  "berlin = \<lparr>is_Local = False, offset = 3600,
     tx = [(1711846800, 7200), (1729990800, 3600)]\<rparr>"

definition beirut :: location where
  "beirut = \<lparr>is_Local = False, offset = 7200,
     tx = [(1711836000, 10800), (1729976400, 7200)]\<rparr>"

definition lordHowe :: location where
  "lordHowe = \<lparr>is_Local = False, offset = 39600,
     tx = [(1712415600, 37800), (1728142200, 39600)]\<rparr>"

text \<open>
  Schedules: midnight on the 31st of any month (Apia); every second of every hour but
  hour 2 (Berlin); noon on the 1st and on the 31st of any month (Beirut); every second of
  minutes 31 and 59 of hour 2 (Lord Howe).
\<close>

definition midnightOn31st :: SpecSchedule where
  "midnightOn31st =
     \<lparr>Second = 1, Minute = 1, Hour = 1, Dom = 2 ^ 31, Month = 2 ^ 13 - 2,
      Dow = 2 ^ 160 + 127, Year = 2 ^ 130 - 1, Location = apia\<rparr>"

definition everyHourButTwo :: SpecSchedule where
  "everyHourButTwo =
     \<lparr>Second = 2 ^ 60 - 1, Minute = 2 ^ 60 - 1, Hour = 2 ^ 24 - 1 - 4,
      Dom = 2 ^ 160 + (2 ^ 32 - 2), Month = 2 ^ 13 - 2, Dow = 2 ^ 160 + 127,
      Year = 2 ^ 130 - 1, Location = berlin\<rparr>"

definition noonOn1stAnd31st :: SpecSchedule where
  "noonOn1stAnd31st =
     \<lparr>Second = 1, Minute = 1, Hour = 2 ^ 12, Dom = 2 ^ 31 + 2, Month = 2 ^ 13 - 2,
      Dow = 2 ^ 160 + 127, Year = 2 ^ 130 - 1, Location = beirut\<rparr>"

definition twoOClock :: SpecSchedule where
  "twoOClock =
     \<lparr>Second = 2 ^ 60 - 1, Minute = 2 ^ 59 + 2 ^ 31, Hour = 4,
      Dom = 2 ^ 160 + (2 ^ 32 - 2), Month = 2 ^ 13 - 2, Dow = 2 ^ 160 + 127,
      Year = 2 ^ 130 - 1, Location = lordHowe\<rparr>"

text \<open>
  \<open>Next\<close> in Apia from 29 December 2011, 12:00 local time (22:00 UTC): the search is in
  the day loop at 12:00:01, a day that does not match; the first pass snaps to 00:00 of the
  29th and adds a day; \<open>time.Date\<close> resolves the missing 30 December 00:00 to 00:00 of the
  29th again, and from then on every pass of the day loop ends where it began.
\<close>

lemma apia_start:
  "loc (Date 2011 12 29 22 0 0 0 (Zone 0)) = Zone 0"
  "searchLoc midnightOn31st (Date 2011 12 29 22 0 0 0 (Zone 0)) = apia"
  "roundUp midnightOn31st (Date 2011 12 29 22 0 0 0 (Zone 0)) =
     \<lparr>ns = 1325196001000000000, loc = apia\<rparr>"
  "year_of \<lparr>ns = 1325196001000000000, loc = apia\<rparr> + 5 = 2016"
  by code_simp+

lemma apia_steps:
  "next_step midnightOn31st (Zone 0) apia 2016 WRAP False
      \<lparr>ns = 1325196001000000000, loc = apia\<rparr> =
     Goto YEAR False \<lparr>ns = 1325196001000000000, loc = apia\<rparr>"
  "next_step midnightOn31st (Zone 0) apia 2016 YEAR False
      \<lparr>ns = 1325196001000000000, loc = apia\<rparr> =
     Goto MONTH False \<lparr>ns = 1325196001000000000, loc = apia\<rparr>"
  "next_step midnightOn31st (Zone 0) apia 2016 MONTH False
      \<lparr>ns = 1325196001000000000, loc = apia\<rparr> =
     Goto DAY False \<lparr>ns = 1325196001000000000, loc = apia\<rparr>"
  "next_step midnightOn31st (Zone 0) apia 2016 DAY False
      \<lparr>ns = 1325196001000000000, loc = apia\<rparr> =
     Goto DAY True \<lparr>ns = 1325152800000000000, loc = apia\<rparr>"
  "next_step midnightOn31st (Zone 0) apia 2016 DAY True
      \<lparr>ns = 1325152800000000000, loc = apia\<rparr> =
     Goto DAY True \<lparr>ns = 1325152800000000000, loc = apia\<rparr>"
  by code_simp+

text \<open>
  C1. \<open>Next\<close> does not always return the zero time or a later instant: for the schedule
  ``midnight on the 31st'' in Apia and the instant 29 December 2011, 22:00 UTC, it never
  returns. The 29th is read back as the 29th of December 2011, 00:00, in Apia.
\<close>

theorem Next_never_returns:
  "Next midnightOn31st (Date 2011 12 29 22 0 0 0 (Zone 0)) = None \<and>
   Date 2011 12 30 0 0 0 0 apia = Date 2011 12 29 0 0 0 0 apia"
proof
  show "Next midnightOn31st (Date 2011 12 29 22 0 0 0 (Zone 0)) = None"
    unfolding Next_alt apia_start
    by (simp only: next_go_Goto [OF apia_steps(1)] next_go_Goto [OF apia_steps(2)]
        next_go_Goto [OF apia_steps(3)] next_go_Goto [OF apia_steps(4)]
        next_go_stuck [OF apia_steps(5)])
  show "Date 2011 12 30 0 0 0 0 apia = Date 2011 12 29 0 0 0 0 apia"
    by code_simp
qed

text \<open>
  \<open>Latest\<close> in Berlin from 27 October 2024, 02:30 summer time (00:30 UTC), the night the
  clock is set back from 03:00 to 02:00: hour 2 does not match, \<open>time.Date\<close> resolves 02:00
  to the second 02:00 (01:00 UTC), one second less is 02:59:59 summer time, which is later
  than the start and still in hour 2; every further pass of the hour loop ends there.
\<close>

lemma berlin_start:
  "loc (Date 2024 10 27 0 30 0 0 (Zone 0)) = Zone 0"
  "searchLoc everyHourButTwo (Date 2024 10 27 0 30 0 0 (Zone 0)) = berlin"
  "roundDown everyHourButTwo (Date 2024 10 27 0 30 0 0 (Zone 0)) =
     \<lparr>ns = 1729989000000000000, loc = berlin\<rparr>"
  "year_of \<lparr>ns = 1729989000000000000, loc = berlin\<rparr> - 5 = 2019"
  by code_simp+

lemma berlin_steps:
  "latest_step everyHourButTwo (Zone 0) berlin 2019 WRAP
      \<lparr>ns = 1729989000000000000, loc = berlin\<rparr> =
     GotoBack YEAR \<lparr>ns = 1729989000000000000, loc = berlin\<rparr>"
  "latest_step everyHourButTwo (Zone 0) berlin 2019 YEAR
      \<lparr>ns = 1729989000000000000, loc = berlin\<rparr> =
     GotoBack MONTH \<lparr>ns = 1729989000000000000, loc = berlin\<rparr>"
  "latest_step everyHourButTwo (Zone 0) berlin 2019 MONTH
      \<lparr>ns = 1729989000000000000, loc = berlin\<rparr> =
     GotoBack DAY \<lparr>ns = 1729989000000000000, loc = berlin\<rparr>"
  "latest_step everyHourButTwo (Zone 0) berlin 2019 DAY
      \<lparr>ns = 1729989000000000000, loc = berlin\<rparr> =
     GotoBack HOUR \<lparr>ns = 1729989000000000000, loc = berlin\<rparr>"
  "latest_step everyHourButTwo (Zone 0) berlin 2019 HOUR
      \<lparr>ns = 1729989000000000000, loc = berlin\<rparr> =
     GotoBack HOUR \<lparr>ns = 1729990799000000000, loc = berlin\<rparr>"
  "latest_step everyHourButTwo (Zone 0) berlin 2019 HOUR
      \<lparr>ns = 1729990799000000000, loc = berlin\<rparr> =
     GotoBack HOUR \<lparr>ns = 1729990799000000000, loc = berlin\<rparr>"
  by code_simp+

text \<open>
  C2. \<open>Latest\<close> does not always return the zero time or an instant up to \<open>t\<close>: for the
  schedule ``every second of every hour but hour 2'' in Berlin and the instant 27 October
  2024, 00:30 UTC, it never returns; the instant its hour loop is caught at, 00:59:59 UTC,
  is later than \<open>t\<close>.
\<close>

theorem Latest_never_returns:
  "Latest everyHourButTwo (Date 2024 10 27 0 30 0 0 (Zone 0)) = None \<and>
   backHour berlin (In (Date 2024 10 27 0 30 0 0 (Zone 0)) berlin) =
     In (Date 2024 10 27 0 59 59 0 (Zone 0)) berlin \<and>
   ns (Date 2024 10 27 0 30 0 0 (Zone 0)) < ns (Date 2024 10 27 0 59 59 0 (Zone 0))"
proof (intro conjI)
  show "Latest everyHourButTwo (Date 2024 10 27 0 30 0 0 (Zone 0)) = None"
    unfolding Latest_alt berlin_start
    by (simp only: latest_go_Goto [OF berlin_steps(1)] latest_go_Goto [OF berlin_steps(2)]
        latest_go_Goto [OF berlin_steps(3)] latest_go_Goto [OF berlin_steps(4)]
        latest_go_Goto [OF berlin_steps(5)] latest_go_stuck [OF berlin_steps(6)])
  show "backHour berlin (In (Date 2024 10 27 0 30 0 0 (Zone 0)) berlin) =
     In (Date 2024 10 27 0 59 59 0 (Zone 0)) berlin"
    by code_simp
  show "ns (Date 2024 10 27 0 30 0 0 (Zone 0)) < ns (Date 2024 10 27 0 59 59 0 (Zone 0))"
    by code_simp
qed

text \<open>
  C7. \<open>Next\<close> is not monotone. In Beirut the clock goes from 00:00 to 01:00 on 31 March
  2024. For the schedule ``noon on the 1st and on the 31st'', \<open>Next\<close> from 30 March 10:00
  returns 1 April 12:00: the day loop reaches 31 March at 01:00, takes the hour off again,
  which is 30 March 23:00, and the next pass goes to 1 April. From the later instant
  31 March 05:00 it returns the earlier 31 March 12:00.
\<close>

theorem Next_not_monotone:
  "ns (Date 2024 3 30 10 0 0 0 beirut) < ns (Date 2024 3 31 5 0 0 0 beirut) \<and>
   Next noonOn1stAnd31st (Date 2024 3 30 10 0 0 0 beirut) =
     Some (Date 2024 4 1 12 0 0 0 beirut) \<and>
   Next noonOn1stAnd31st (Date 2024 3 31 5 0 0 0 beirut) =
     Some (Date 2024 3 31 12 0 0 0 beirut) \<and>
   ns (Date 2024 3 31 12 0 0 0 beirut) < ns (Date 2024 4 1 12 0 0 0 beirut)"
  by code_simp

text \<open>
  C8. \<open>Next\<close> does not always lead back to the result of \<open>Latest\<close>. On Lord Howe Island the
  clock goes from 02:00 to 02:30 on 6 October 2024. For the schedule ``every second of
  minutes 31 and 59 of hour 2'', \<open>Latest\<close> from 02:30:30 returns 01:59:59, an instant in
  hour 1: the minute loop steps from minute 30 over the transition to minute 59 without
  meeting minute 0. \<open>Next\<close> from one second before that result returns 02:31:00.
\<close>

theorem Next_of_Latest_differs:
  "Latest twoOClock (Date 2024 10 6 2 30 30 0 lordHowe) =
     Some (Date 2024 10 6 1 59 59 0 lordHowe) \<and>
   Next twoOClock (Add (Date 2024 10 6 1 59 59 0 lordHowe) (- Second_d)) =
     Some (Date 2024 10 6 2 31 0 0 lordHowe) \<and>
   ns (Date 2024 10 6 1 59 59 0 lordHowe) < ns (Date 2024 10 6 2 31 0 0 lordHowe) \<and>
   hour_of (Date 2024 10 6 1 59 59 0 lordHowe) = 1"
  by code_simp


section \<open>A schedule that no instant satisfies\<close>

text \<open>The fields of a time determine its day number.\<close>

lemma civil_fields:
  "dayNumber t = daysSinceEpoch (year_of t) + daysBeforeMonth (year_of t) (month_of t)
       + day_of t - 1
   \<and> 1 \<le> month_of t \<and> month_of t \<le> 12 \<and> 1 \<le> day_of t
   \<and> day_of t \<le> daysIn (year_of t) (month_of t)"
proof -
  obtain y yd where yD: "yearDay (dayNumber t) = (y, yd)" by (cases "yearDay (dayNumber t)")
  obtain m d where mD: "monthDay y yd = (m, d)" by (cases "monthDay y yd")
  from yearDay_sound [OF yD]
  have s: "dayNumber t = daysSinceEpoch y + yd" "0 \<le> yd" "yd < yearLen y" by simp_all
  from monthDay_sound [OF mD s(2,3)]
  have ms: "1 \<le> m" "m \<le> 12" "1 \<le> d" "d \<le> daysIn y m" "yd = daysBeforeMonth y m + d - 1"
    by simp_all
  have f: "year_of t = y" "month_of t = m" "day_of t = d"
    by (simp_all add: year_of_def month_of_def day_of_def yD mD)
  show ?thesis unfolding f using s(1) ms by simp
qed

text \<open>
  An instant satisfies a schedule when none of the loop conditions of \<open>Next\<close> holds of it:
  the search returns the time it holds as soon as all six loops fall through.
\<close>

definition matches :: "SpecSchedule \<Rightarrow> time \<Rightarrow> bool" where
  "matches s t \<longleftrightarrow>
     minYear \<le> year_of t \<and> Bit (Year s) (nat (year_of t - minYear)) \<noteq> 0 \<and>
     Bit (Month s) (nat (month_of t)) \<noteq> 0 \<and>
     dayMatches s t \<and>
     Bit (Hour s) (nat (hour_of t)) \<noteq> 0 \<and>
     Bit (Minute s) (nat (minute_of t)) \<noteq> 0 \<and>
     Bit (Second s) (nat (second_of t)) \<noteq> 0"

text \<open>The schedule: every second of 30 December 2011, in Apia.\<close>

definition on30December2011 :: SpecSchedule where
  "on30December2011 =
     \<lparr>Second = 2 ^ 60 - 1, Minute = 2 ^ 60 - 1, Hour = 2 ^ 24 - 1, Dom = 2 ^ 30,
      Month = 2 ^ 12, Dow = 2 ^ 160 + 127, Year = 2 ^ 41, Location = apia\<rparr>"

lemma Bit_single: "Bit (2 ^ k) n \<noteq> 0 \<longleftrightarrow> n = k"
  by (auto simp add: Bit_def bit_exp_iff)

lemma Bit_single_pos: "Bit (2 ^ k) n > 0 \<longleftrightarrow> n = k"
  by (auto simp add: Bit_def bit_exp_iff)

lemma lookup_apia:
  "fst (lookup apia u) =
     (if u < 1316872800 then - 39600 else if u < 1325239200 then - 36000
      else if u < 1333202400 then 50400 else 46800)"
  by (simp add: lookup_def apia_def)

lemma day_below: "x < n * 86400 \<Longrightarrow> x div 86400 < n" for x :: int
  using div_bounds [of 86400 x] by linarith

lemma day_above: "n * 86400 \<le> x \<Longrightarrow> n \<le> x div 86400" for x :: int
  using div_bounds [of 86400 x] by linarith

lemma apia_no_30th: "dayNumber \<lparr>ns = u, loc = apia\<rparr> \<noteq> 734500"
proof -
  define U where "U = Unix \<lparr>ns = u, loc = apia\<rparr>"
  have L: "localSecs \<lparr>ns = u, loc = apia\<rparr> = U + fst (lookup apia U) + 62135596800"
    by (simp add: localSecs_def U_def unixToInternal_def)
  consider "U < 1325239200" | "1325239200 \<le> U" by linarith
  then show ?thesis
  proof cases
    case 1
    then have "localSecs \<lparr>ns = u, loc = apia\<rparr> < 734500 * 86400"
      unfolding L lookup_apia by (simp split: if_splits)
    then have "dayNumber \<lparr>ns = u, loc = apia\<rparr> < 734500"
      unfolding dayNumber_def by (rule day_below)
    then show ?thesis by simp
  next
    case 2
    then have "734501 * 86400 \<le> localSecs \<lparr>ns = u, loc = apia\<rparr>"
      unfolding L lookup_apia by (simp split: if_splits)
    then have "734501 \<le> dayNumber \<lparr>ns = u, loc = apia\<rparr>"
      unfolding dayNumber_def by (rule day_above)
    then show ?thesis by simp
  qed
qed

lemma day_30_December_2011:
  "daysSinceEpoch 2011 + daysBeforeMonth 2011 12 + 30 - 1 = 734500"
  by (simp add: daysSinceEpoch_def daysBeforeMonth_def daysBefore_def isLeap_def)

lemma on30December2011_fields:
  "Year on30December2011 = 2 ^ 41" "Month on30December2011 = 2 ^ 12"
  "Dom on30December2011 = 2 ^ 30" "Bit (Dow on30December2011) maxBits > 0"
  by (simp_all add: on30December2011_def Bit_def maxBits_def)

lemma no_match_apia: "\<not> matches on30December2011 \<lparr>ns = u, loc = apia\<rparr>"
proof
  define t where "t = \<lparr>ns = u, loc = apia\<rparr>"
  assume "matches on30December2011 \<lparr>ns = u, loc = apia\<rparr>"
  then have m: "matches on30December2011 t" by (simp add: t_def)
  from m have a: "minYear \<le> year_of t"
    "Bit (Year on30December2011) (nat (year_of t - minYear)) \<noteq> 0"
    "Bit (Month on30December2011) (nat (month_of t)) \<noteq> 0"
    "dayMatches on30December2011 t"
    by (simp_all add: matches_def)
  have "nat (year_of t - minYear) = 41"
    using a(2) unfolding on30December2011_fields Bit_single .
  with a(1) have y: "year_of t = 2011" by (simp add: minYear_def)
  have "nat (month_of t) = 12"
    using a(3) unfolding on30December2011_fields Bit_single .
  then have mo: "month_of t = 12" by simp
  have "Bit (Dom on30December2011) (nat (day_of t)) > 0"
    using a(4) on30December2011_fields(4) by (simp add: dayMatches_plain)
  then have "nat (day_of t) = 30"
    unfolding on30December2011_fields Bit_single_pos .
  then have d: "day_of t = 30" by simp
  have "dayNumber t = 734500"
    using civil_fields [of t] unfolding y mo d day_30_December_2011 by simp
  with apia_no_30th [of u] show False by (simp add: t_def)
qed

lemma dec30_start:
  "loc (Date 2011 12 29 22 0 0 0 (Zone 0)) = Zone 0"
  "searchLoc on30December2011 (Date 2011 12 29 22 0 0 0 (Zone 0)) = apia"
  "roundUp on30December2011 (Date 2011 12 29 22 0 0 0 (Zone 0)) =
     \<lparr>ns = 1325196001000000000, loc = apia\<rparr>"
  by code_simp+

lemma dec30_steps:
  "next_step on30December2011 (Zone 0) apia 2016 WRAP False
      \<lparr>ns = 1325196001000000000, loc = apia\<rparr> =
     Goto YEAR False \<lparr>ns = 1325196001000000000, loc = apia\<rparr>"
  "next_step on30December2011 (Zone 0) apia 2016 YEAR False
      \<lparr>ns = 1325196001000000000, loc = apia\<rparr> =
     Goto MONTH False \<lparr>ns = 1325196001000000000, loc = apia\<rparr>"
  "next_step on30December2011 (Zone 0) apia 2016 MONTH False
      \<lparr>ns = 1325196001000000000, loc = apia\<rparr> =
     Goto DAY False \<lparr>ns = 1325196001000000000, loc = apia\<rparr>"
  "next_step on30December2011 (Zone 0) apia 2016 DAY False
      \<lparr>ns = 1325196001000000000, loc = apia\<rparr> =
     Goto DAY True \<lparr>ns = 1325152800000000000, loc = apia\<rparr>"
  "next_step on30December2011 (Zone 0) apia 2016 DAY True
      \<lparr>ns = 1325152800000000000, loc = apia\<rparr> =
     Goto DAY True \<lparr>ns = 1325152800000000000, loc = apia\<rparr>"
  by code_simp+

text \<open>
  C3. \<open>Next\<close> does not always return the zero time when no instant qualifies: no instant
  satisfies the schedule ``every second of 30 December 2011'' in Apia, where that day does
  not exist, and \<open>Next\<close> from 29 December 2011, 22:00 UTC, never returns. Its day loop is
  caught on the 29th as in C1.
\<close>

theorem Next_exhausted_never_returns:
  "(\<nexists>u. matches on30December2011 \<lparr>ns = u, loc = apia\<rparr>) \<and>
   Next on30December2011 (Date 2011 12 29 22 0 0 0 (Zone 0)) = None"
proof
  show "\<nexists>u. matches on30December2011 \<lparr>ns = u, loc = apia\<rparr>"
    using no_match_apia by blast
  show "Next on30December2011 (Date 2011 12 29 22 0 0 0 (Zone 0)) = None"
    unfolding Next_alt dec30_start apia_start(4)
    by (simp only: next_go_Goto [OF dec30_steps(1)] next_go_Goto [OF dec30_steps(2)]
        next_go_Goto [OF dec30_steps(3)] next_go_Goto [OF dec30_steps(4)]
        next_go_stuck [OF dec30_steps(5)])
qed


end
